theory Spec2Isabelle
  imports Complex_Main "HOL-Library.Multiset" "HOL-Library.Log_Nat"
begin

section \<open>JavaScript numbers and typed arrays\<close>

text \<open>
  The program is JavaScript. Its numbers are modelled as exact reals, extended by the
  one non-number the program can produce from finite inputs: \<open>NaN\<close>, which is what
  \<open>undefined\<close> (an array read outside the array) becomes in arithmetic. The rounding
  of binary64 numbers and of \<open>Float32Array\<close> cells is not part of this model; where it
  changes a result (\<open>quantize64\<close> below) it is modelled apart.
\<close>

datatype jsnum = Num real | NaN

fun jadd :: "jsnum \<Rightarrow> jsnum \<Rightarrow> jsnum" where
  "jadd (Num a) (Num b) = Num (a + b)"
| "jadd _ _ = NaN"

fun jsub :: "jsnum \<Rightarrow> jsnum \<Rightarrow> jsnum" where
  "jsub (Num a) (Num b) = Num (a - b)"
| "jsub _ _ = NaN"

fun jmul :: "jsnum \<Rightarrow> jsnum \<Rightarrow> jsnum" where
  "jmul (Num a) (Num b) = Num (a * b)"
| "jmul _ _ = NaN"

text \<open>\<open>Math.min\<close> and \<open>Math.max\<close> return \<open>NaN\<close> as soon as one argument is \<open>NaN\<close>.\<close>

fun jmin :: "jsnum \<Rightarrow> jsnum \<Rightarrow> jsnum" where
  "jmin (Num a) (Num b) = Num (min a b)"
| "jmin _ _ = NaN"

fun jmax :: "jsnum \<Rightarrow> jsnum \<Rightarrow> jsnum" where
  "jmax (Num a) (Num b) = Num (max a b)"
| "jmax _ _ = NaN"

text \<open>\<open>Math.round\<close>: the nearest integer, a tie going up.\<close>

definition Math_round :: "real \<Rightarrow> int" where
  "Math_round x = \<lfloor>x + 1 / 2\<rfloor>"

text \<open>
  The conversion applied by every write to a \<open>Uint8ClampedArray\<close>: \<open>NaN\<close> becomes 0,
  the value is clamped to [0,255] and rounded to the nearest integer, a tie going to
  the even one.
\<close>

definition toUint8Clamp :: "jsnum \<Rightarrow> nat" where
  "toUint8Clamp v =
     (case v of
        NaN \<Rightarrow> 0
      | Num x \<Rightarrow>
          if x \<le> 0 then 0
          else if 255 \<le> x then 255
          else (let f = \<lfloor>x\<rfloor> in
                if of_int f + 1 / 2 < x then nat (f + 1)
                else if x < of_int f + 1 / 2 then nat f
                else if even f then nat f else nat (f + 1)))"

text \<open>
  Reading a typed array at a natural-number index: \<open>undefined\<close> outside the array.
  Writing outside the array is ignored, which is what \<open>xs[i := v]\<close> does.
\<close>

definition rd :: "jsnum list \<Rightarrow> nat \<Rightarrow> jsnum" where
  "rd xs i = (if i < length xs then xs ! i else NaN)"

text \<open>Reading a byte buffer, at a natural-number index and at any number.\<close>

definition rd_u8 :: "nat list \<Rightarrow> nat \<Rightarrow> jsnum" where
  "rd_u8 xs i = (if i < length xs then Num (real (xs ! i)) else NaN)"

definition rd_px :: "nat list \<Rightarrow> real \<Rightarrow> jsnum" where
  "rd_px xs i =
     (if i = of_int \<lfloor>i\<rfloor> \<and> 0 \<le> i then rd_u8 xs (nat \<lfloor>i\<rfloor>) else NaN)"

text \<open>Reading a float buffer at an integer index, which may be negative.\<close>

definition rd_int :: "jsnum list \<Rightarrow> int \<Rightarrow> jsnum" where
  "rd_int xs i = (if 0 \<le> i \<and> nat i < length xs then xs ! nat i else NaN)"

text \<open>\<open>new Uint8ClampedArray(pixels)\<close>: a fresh array, each element converted.\<close>

definition Uint8ClampedArray_from :: "nat list \<Rightarrow> nat list" where
  "Uint8ClampedArray_from xs = map (\<lambda>v. toUint8Clamp (Num (real v))) xs"

section \<open>Bayer matrices\<close>

definition BAYER_2 :: "nat list list" where
  "BAYER_2 = [[0, 2],
              [3, 1]]"

definition BAYER_4 :: "nat list list" where
  "BAYER_4 = [[0,  8,  2,  10],
              [12, 4,  14, 6],
              [3,  11, 1,  9],
              [15, 7,  13, 5]]"

definition BAYER_8 :: "nat list list" where
  "BAYER_8 = [[0,  32, 8,  40, 2,  34, 10, 42],
              [48, 16, 56, 24, 50, 18, 58, 26],
              [12, 44, 4,  36, 14, 46, 6,  38],
              [60, 28, 52, 20, 62, 30, 54, 22],
              [3,  35, 11, 43, 1,  33, 9,  41],
              [51, 19, 59, 27, 49, 17, 57, 25],
              [15, 47, 7,  39, 13, 45, 5,  37],
              [63, 31, 55, 23, 61, 29, 53, 21]]"

definition offsets :: "nat list" where
  "offsets = [0, 2, 3, 1]"

text \<open>
  \<open>generateBayerMatrix\<close> recurses on \<open>size / 2\<close> until the size is exactly 2. On a
  size that is 0, 1 or odd the halves never reach 2 (they become fractions) and the
  JavaScript recursion does not return; that outcome is the value \<open>None\<close>.
\<close>

function generateBayerMatrix :: "nat \<Rightarrow> nat list list option" where
  "generateBayerMatrix sz =
     (if sz = 2 then Some BAYER_2
      else if sz < 2 \<or> odd sz then None
      else
        (let half = sz div 2 in
         case generateBayerMatrix half of
           None \<Rightarrow> None
         | Some smaller \<Rightarrow>
             Some (map (\<lambda>y. map (\<lambda>x.
                     (let sy = y mod half;
                          sx = x mod half;
                          quadrant = (y div half) * 2 + x div half
                      in 4 * (smaller ! sy ! sx) + offsets ! quadrant))
                   [0..<sz]) [0..<sz])))"
  by pat_completeness auto
termination
  by (relation "measure id") auto

declare generateBayerMatrix.simps [simp del]

definition BAYER_16 :: "nat list list" where
  "BAYER_16 = the (generateBayerMatrix 16)"

record bayer =
  matrix :: "nat list list"
  size_m :: nat
  max_m :: nat

definition getBayerMatrix :: "real \<Rightarrow> bayer" where
  "getBayerMatrix sz =
     (if sz \<le> 2 then \<lparr>matrix = BAYER_2, size_m = 2, max_m = 4\<rparr>
      else if sz \<le> 4 then \<lparr>matrix = BAYER_4, size_m = 4, max_m = 16\<rparr>
      else if sz \<le> 8 then \<lparr>matrix = BAYER_8, size_m = 8, max_m = 64\<rparr>
      else \<lparr>matrix = BAYER_16, size_m = 16, max_m = 256\<rparr>)"

section \<open>Quantisation\<close>

text \<open>
  \<open>quantize(value, levels)\<close>. With \<open>levels = 1\<close> the step is \<open>255 / 0 = Infinity\<close>, the
  inner quotient is 0 and \<open>0 * Infinity\<close> is \<open>NaN\<close>.
\<close>

definition quantize :: "jsnum \<Rightarrow> real \<Rightarrow> jsnum" where
  "quantize v levels =
     (case v of
        NaN \<Rightarrow> NaN
      | Num x \<Rightarrow>
          if levels = 1 then NaN
          else (let step = 255 / (levels - 1)
                in Num (of_int (Math_round (of_int (Math_round (x / step)) * step)))))"

text \<open>
  The same function with the result of every division and multiplication rounded as
  the program's numbers are: to the nearest binary64 value, a tie going to the even
  significand (for values in the normal range, which is where \<open>quantize\<close> works).
  \<open>ilog2 x\<close> is the exponent \<open>floor(log\<^sub>2 x)\<close> of a positive \<open>x\<close>.
\<close>

definition ilog2 :: "real \<Rightarrow> int" where
  "ilog2 x =
     (if 1 \<le> x then int (floorlog 2 (nat \<lfloor>x\<rfloor>)) - 1
      else (let y = 1 / x;
                n = int (floorlog 2 (nat \<lfloor>y\<rfloor>)) - 1
            in if y = 2 powi n then - n else - (n + 1)))"

definition round_ties_even :: "real \<Rightarrow> int" where
  "round_ties_even x =
     (let f = \<lfloor>x\<rfloor>;
          d = x - of_int f
      in if d < 1 / 2 then f else if 1 / 2 < d then f + 1 else if even f then f else f + 1)"

definition binary64 :: "real \<Rightarrow> real" where
  "binary64 x =
     (if x = 0 then 0
      else (let e = ilog2 \<bar>x\<bar>;
                ulp = 2 powi (e - 52)
            in of_int (round_ties_even (x / ulp)) * ulp))"

definition quantize64 :: "real \<Rightarrow> real \<Rightarrow> real" where
  "quantize64 v levels =
     (let step = binary64 (255 / (levels - 1))
      in of_int (Math_round (binary64 (of_int (Math_round (binary64 (v / step))) * step))))"

text \<open>
  The levels the specification names: for \<open>k = 0, \<dots>, L - 1\<close> the value
  \<open>round(k * 255 / (L - 1))\<close>.
\<close>

definition level :: "nat \<Rightarrow> nat \<Rightarrow> int" where
  "level L k = Math_round (real k * 255 / (real L - 1))"

text \<open>
  Auxiliary for the proofs: one row of the doubled matrix, built from a row of the
  smaller one for the two quadrants \<open>q\<close> and \<open>q + 1\<close> it crosses.
\<close>

definition quad_row :: "nat \<Rightarrow> nat list \<Rightarrow> nat list" where
  "quad_row q rw = map (\<lambda>v. 4 * v + offsets ! q) rw @ map (\<lambda>v. 4 * v + offsets ! (q + 1)) rw"

text \<open>A square matrix of side \<open>n\<close> whose entries are a permutation of \<open>0, \<dots>, n\<^sup>2 - 1\<close>.\<close>

definition permutation_matrix :: "nat \<Rightarrow> nat list list \<Rightarrow> bool" where
  "permutation_matrix n m \<longleftrightarrow>
     length m = n \<and> map length m = replicate n n \<and> mset (concat m) = mset [0..<n * n]"

section \<open>Dithering\<close>

text \<open>The index of the first sample of pixel \<open>(x, y)\<close> in a buffer of the given width.\<close>

definition px_idx :: "nat \<Rightarrow> nat \<Rightarrow> nat \<Rightarrow> nat" where
  "px_idx width y x = 4 * (y * width + x)"

definition bayerDither ::
  "nat list \<Rightarrow> nat \<Rightarrow> nat \<Rightarrow> real \<Rightarrow> real \<Rightarrow> real \<Rightarrow> nat list" where
  "bayerDither pixels width height strength sz colorLevels =
     (let output = Uint8ClampedArray_from pixels;
          bm = getBayerMatrix sz
      in fold (\<lambda>y. fold (\<lambda>x output.
            (let idx = px_idx width y x;
                 mx = x mod size_m bm;
                 my = y mod size_m bm;
                 threshold = (real (matrix bm ! my ! mx) / real (max_m bm) - 0.5) * strength * 255
             in fold (\<lambda>c output.
                  (let value = jadd (rd_u8 pixels (idx + c)) (Num threshold);
                       value = jmax (Num 0) (jmin (Num 255) value)
                   in output[idx + c := toUint8Clamp (quantize value colorLevels)]))
                [0..<3] output))
          [0..<width]) [0..<height] output)"

text \<open>
  The two diffusion algorithms share, word for word, the code that builds the
  downsampled working buffer and the code that scales it back up.
\<close>

definition src_idx :: "nat \<Rightarrow> real \<Rightarrow> nat \<Rightarrow> nat \<Rightarrow> real" where
  "src_idx width scale y x =
     (let srcX = real x * scale;
          srcY = real y * scale
      in 4 * (srcY * real width + srcX))"

definition downsample :: "nat list \<Rightarrow> nat \<Rightarrow> real \<Rightarrow> nat \<Rightarrow> nat \<Rightarrow> jsnum list" where
  "downsample pixels width scale scaledWidth scaledHeight =
     fold (\<lambda>y. fold (\<lambda>x scaled.
        (let srcIdx = src_idx width scale y x;
             dstIdx = px_idx scaledWidth y x
         in scaled[dstIdx := rd_px pixels srcIdx,
                   dstIdx + 1 := rd_px pixels (srcIdx + 1),
                   dstIdx + 2 := rd_px pixels (srcIdx + 2),
                   dstIdx + 3 := Num 255]))
       [0..<scaledWidth]) [0..<scaledHeight]
       (replicate (scaledWidth * scaledHeight * 4) (Num 0))"

definition up_src_idx :: "real \<Rightarrow> nat \<Rightarrow> nat \<Rightarrow> nat \<Rightarrow> nat \<Rightarrow> int" where
  "up_src_idx scale scaledWidth scaledHeight y x =
     (let srcX = min \<lfloor>real x / scale\<rfloor> (int scaledWidth - 1);
          srcY = min \<lfloor>real y / scale\<rfloor> (int scaledHeight - 1)
      in 4 * (srcY * int scaledWidth + srcX))"

definition upsample_pixel ::
  "jsnum list \<Rightarrow> nat \<Rightarrow> real \<Rightarrow> nat \<Rightarrow> nat \<Rightarrow> nat \<Rightarrow> nat \<Rightarrow> nat list \<Rightarrow> nat list" where
  "upsample_pixel scaled width scale scaledWidth scaledHeight y x output =
     (let srcIdx = up_src_idx scale scaledWidth scaledHeight y x;
          dstIdx = px_idx width y x
      in output[dstIdx := toUint8Clamp (jmax (Num 0) (jmin (Num 255) (rd_int scaled srcIdx))),
                dstIdx + 1 := toUint8Clamp (jmax (Num 0) (jmin (Num 255) (rd_int scaled (srcIdx + 1)))),
                dstIdx + 2 := toUint8Clamp (jmax (Num 0) (jmin (Num 255) (rd_int scaled (srcIdx + 2)))),
                dstIdx + 3 := toUint8Clamp (Num 255)])"

definition upsample ::
  "jsnum list \<Rightarrow> nat \<Rightarrow> nat \<Rightarrow> nat \<Rightarrow> real \<Rightarrow> nat \<Rightarrow> nat \<Rightarrow> nat list" where
  "upsample scaled len width height scale scaledWidth scaledHeight =
     fold (\<lambda>y. fold (\<lambda>x. upsample_pixel scaled width scale scaledWidth scaledHeight y x)
       [0..<width]) [0..<height] (replicate len 0)"

text \<open>
  The guarded \<open>+=\<close> statements of the Floyd-Steinberg pass for channel \<open>c\<close> of pixel
  \<open>(x, y)\<close>, in the order of the source: the cell each one adds to and the fraction of
  the error it adds (\<open>error * 7 / 16\<close> is \<open>error\<close> times \<open>7 / 16\<close>).
\<close>

definition fs_targets :: "nat \<Rightarrow> nat \<Rightarrow> nat \<Rightarrow> nat \<Rightarrow> nat \<Rightarrow> (nat \<times> real) list" where
  "fs_targets scaledWidth scaledHeight y x c =
     (let idx = px_idx scaledWidth y x
      in (if x + 1 < scaledWidth then [(idx + 4 + c, 7 / 16)] else []) @
         (if y + 1 < scaledHeight then
            (if x > 0 then [(idx + scaledWidth * 4 - 4 + c, 3 / 16)] else []) @
            [(idx + scaledWidth * 4 + c, 5 / 16)] @
            (if x + 1 < scaledWidth then [(idx + scaledWidth * 4 + 4 + c, 1 / 16)] else [])
          else []))"

definition fs_channel ::
  "real \<Rightarrow> real \<Rightarrow> nat \<Rightarrow> nat \<Rightarrow> nat \<Rightarrow> nat \<Rightarrow> nat \<Rightarrow> jsnum list \<Rightarrow> jsnum list" where
  "fs_channel strength colorLevels scaledWidth scaledHeight y x c scaled =
     (let idx = px_idx scaledWidth y x;
          oldValue = rd scaled (idx + c);
          newValue = quantize oldValue colorLevels;
          scaled = scaled[idx + c := newValue];
          error = jmul (jsub oldValue newValue) (Num strength)
      in fold (\<lambda>(j, fraction) scaled. scaled[j := jadd (rd scaled j) (jmul error (Num fraction))])
           (fs_targets scaledWidth scaledHeight y x c) scaled)"

definition floydSteinbergDither ::
  "nat list \<Rightarrow> nat \<Rightarrow> nat \<Rightarrow> real \<Rightarrow> real \<Rightarrow> real \<Rightarrow> nat list" where
  "floydSteinbergDither pixels width height strength scale colorLevels =
     (let scaledWidth = nat \<lfloor>real width / scale\<rfloor>;
          scaledHeight = nat \<lfloor>real height / scale\<rfloor>;
          scaled = downsample pixels width scale scaledWidth scaledHeight;
          scaled = fold (\<lambda>y. fold (\<lambda>x. fold (\<lambda>c.
                      fs_channel strength colorLevels scaledWidth scaledHeight y x c) [0..<3])
                    [0..<scaledWidth]) [0..<scaledHeight] scaled
      in upsample scaled (length pixels) width height scale scaledWidth scaledHeight)"

text \<open>
  The guarded \<open>+=\<close> statements of the Atkinson pass, in the order of the source: the
  cells that each receive \<open>error\<close>, which here is already one eighth of the scaled
  quantisation error.
\<close>

definition atkinson_targets :: "nat \<Rightarrow> nat \<Rightarrow> nat \<Rightarrow> nat \<Rightarrow> nat \<Rightarrow> nat list" where
  "atkinson_targets scaledWidth scaledHeight y x c =
     (let idx = px_idx scaledWidth y x
      in (if x + 1 < scaledWidth then [idx + 4 + c] else []) @
         (if x + 2 < scaledWidth then [idx + 8 + c] else []) @
         (if y + 1 < scaledHeight then
            (if x > 0 then [idx + scaledWidth * 4 - 4 + c] else []) @
            [idx + scaledWidth * 4 + c] @
            (if x + 1 < scaledWidth then [idx + scaledWidth * 4 + 4 + c] else [])
          else []) @
         (if y + 2 < scaledHeight then [idx + scaledWidth * 8 + c] else []))"

definition atkinson_channel ::
  "real \<Rightarrow> real \<Rightarrow> nat \<Rightarrow> nat \<Rightarrow> nat \<Rightarrow> nat \<Rightarrow> nat \<Rightarrow> jsnum list \<Rightarrow> jsnum list" where
  "atkinson_channel strength colorLevels scaledWidth scaledHeight y x c scaled =
     (let idx = px_idx scaledWidth y x;
          oldValue = rd scaled (idx + c);
          newValue = quantize oldValue colorLevels;
          scaled = scaled[idx + c := newValue];
          error = jmul (jmul (jsub oldValue newValue) (Num strength)) (Num (1 / 8))
      in fold (\<lambda>j scaled. scaled[j := jadd (rd scaled j) error])
           (atkinson_targets scaledWidth scaledHeight y x c) scaled)"

definition atkinsonDither ::
  "nat list \<Rightarrow> nat \<Rightarrow> nat \<Rightarrow> real \<Rightarrow> real \<Rightarrow> real \<Rightarrow> nat list" where
  "atkinsonDither pixels width height strength scale colorLevels =
     (let scaledWidth = nat \<lfloor>real width / scale\<rfloor>;
          scaledHeight = nat \<lfloor>real height / scale\<rfloor>;
          scaled = downsample pixels width scale scaledWidth scaledHeight;
          scaled = fold (\<lambda>y. fold (\<lambda>x. fold (\<lambda>c.
                      atkinson_channel strength colorLevels scaledWidth scaledHeight y x c) [0..<3])
                    [0..<scaledWidth]) [0..<scaledHeight] scaled
      in upsample scaled (length pixels) width height scale scaledWidth scaledHeight)"

text \<open>
  \<open>randomDither\<close> draws from \<open>Math.random\<close>; the draws are a parameter, \<open>rnd i\<close> being the
  value of the \<open>i\<close>-th call.
\<close>

definition randomDither ::
  "nat list \<Rightarrow> nat \<Rightarrow> nat \<Rightarrow> real \<Rightarrow> real \<Rightarrow> real \<Rightarrow> (nat \<Rightarrow> real) \<Rightarrow> nat list" where
  "randomDither pixels width height strength grainSize colorLevels rnd =
     (let output = Uint8ClampedArray_from pixels;
          noiseWidth = nat \<lceil>real width / grainSize\<rceil>;
          noiseHeight = nat \<lceil>real height / grainSize\<rceil>;
          noise = map (\<lambda>i. Num ((rnd i - 0.5) * strength * 255)) [0..<noiseWidth * noiseHeight]
      in fold (\<lambda>y. fold (\<lambda>x output.
            (let idx = px_idx width y x;
                 nx = nat \<lfloor>real x / grainSize\<rfloor>;
                 ny = nat \<lfloor>real y / grainSize\<rfloor>;
                 noiseVal = rd noise (ny * noiseWidth + nx)
             in fold (\<lambda>c output.
                  (let value = jadd (rd_u8 pixels (idx + c)) noiseVal;
                       value = jmax (Num 0) (jmin (Num 255) value)
                   in output[idx + c := toUint8Clamp (quantize value colorLevels)]))
                [0..<3] output))
          [0..<width]) [0..<height] output)"

text \<open>
  The dispatcher. The three algorithms that divide by the size receive \<open>Math.max(1, size)\<close>,
  so the definitions above are read with a scale or grain of at least 1.
\<close>

definition applyDither ::
  "nat list \<Rightarrow> nat \<Rightarrow> nat \<Rightarrow> string \<Rightarrow> real \<Rightarrow> real \<Rightarrow> real \<Rightarrow> (nat \<Rightarrow> real) \<Rightarrow> nat list" where
  "applyDither pixels width height algorithm strength sz colorLevels rnd =
     (if algorithm = ''bayer'' then
        bayerDither pixels width height strength sz colorLevels
      else if algorithm = ''floyd-steinberg'' then
        floydSteinbergDither pixels width height strength (max 1 sz) colorLevels
      else if algorithm = ''atkinson'' then
        atkinsonDither pixels width height strength (max 1 sz) colorLevels
      else if algorithm = ''random'' then
        randomDither pixels width height strength (max 1 sz) colorLevels rnd
      else Uint8ClampedArray_from pixels)"

text \<open>
  Every branch of \<open>applyDither\<close> returns an array it has created with \<open>new\<close>, and no
  statement of the module writes to \<open>pixels\<close>. With the typed arrays of the program in a
  store, addressed by their position, a call appends its result and returns the new
  address.
\<close>

type_synonym store = "nat list list"

definition applyDither_store ::
  "store \<Rightarrow> nat \<Rightarrow> nat \<Rightarrow> nat \<Rightarrow> string \<Rightarrow> real \<Rightarrow> real \<Rightarrow> real \<Rightarrow> (nat \<Rightarrow> real) \<Rightarrow> store \<times> nat" where
  "applyDither_store st pixels width height algorithm strength sz colorLevels rnd =
     (st @ [applyDither (st ! pixels) width height algorithm strength sz colorLevels rnd],
      length st)"

section \<open>Gradients\<close>

record rgb =
  r :: int
  g :: int
  b :: int











text \<open>
  A buffer of \<open>n\<close> samples in [0,255] whose alpha samples (every fourth one) are given by
  \<open>A\<close>.
\<close>

definition shape :: "nat \<Rightarrow> (nat \<Rightarrow> nat) \<Rightarrow> nat list \<Rightarrow> bool" where
  "shape n A out \<longleftrightarrow>
     length out = n \<and> (\<forall>v \<in> set out. v \<le> 255) \<and> (\<forall>i<n. i mod 4 = 3 \<longrightarrow> out ! i = A i)"

section \<open>Properties of the Bayer matrices\<close>

lemma upt_four: "[n..<n + 4] = [n, n + 1, n + 2, n + 3]"
  by (simp add: numeral_eq_Suc)

lemma mset_upt_times4:
  "mset [0..<4 * m] =
     image_mset (\<lambda>v. 4 * v + 0) (mset [0..<m]) + image_mset (\<lambda>v. 4 * v + 2) (mset [0..<m])
   + (image_mset (\<lambda>v. 4 * v + 3) (mset [0..<m]) + image_mset (\<lambda>v. 4 * v + 1) (mset [0..<m]))"
proof (induction m)
  case 0
  show ?case by simp
next
  case (Suc m)
  have "[0..<4 * Suc m] = [0..<4 * m + 4]" by (simp add: add.commute)
  also have "\<dots> = [0..<4 * m] @ [4 * m..<4 * m + 4]" by (rule upt_add_eq_append) simp
  finally have "[0..<4 * Suc m] = [0..<4 * m] @ [4 * m, 4 * m + 1, 4 * m + 2, 4 * m + 3]"
    by (simp only: upt_four)
  then show ?case using Suc by (simp add: ac_simps)
qed

lemma map_upt_double:
  "map f [0..<h + h] = map f [0..<h] @ map (\<lambda>x. f (x + h)) [0..<h]"
proof -
  have "[0..<h + h] = [0..<h] @ [h..<h + h]" by (rule upt_add_eq_append) simp
  moreover have "[h..<h + h] = map (\<lambda>i. i + h) [0..<h]" by (simp add: map_add_upt)
  ultimately have "map f [0..<h + h] = map f [0..<h] @ map f (map (\<lambda>i. i + h) [0..<h])" by simp
  then show ?thesis by (simp only: map_map o_def)
qed

lemma map_nth_fun: "map (\<lambda>x. f (rw ! x)) [0..<length rw] = map f rw"
proof -
  have "map (\<lambda>x. f (rw ! x)) [0..<length rw] = map f (map ((!) rw) [0..<length rw])"
    by (simp only: map_map o_def)
  then show ?thesis by (simp only: map_nth)
qed

lemma bayer_row:
  assumes "0 < h" and "length rw = h"
  shows "map (\<lambda>x. 4 * (rw ! (x mod h)) + offsets ! (q + x div h)) [0..<h + h] =
         map (\<lambda>v. 4 * v + offsets ! q) rw @ map (\<lambda>v. 4 * v + offsets ! (q + 1)) rw"
proof -
  have a: "map (\<lambda>x. 4 * (rw ! (x mod h)) + offsets ! (q + x div h)) [0..<h] =
           map (\<lambda>x. 4 * (rw ! x) + offsets ! q) [0..<h]"
    by (rule map_cong) simp_all
  have b: "map (\<lambda>x. 4 * (rw ! ((x + h) mod h)) + offsets ! (q + (x + h) div h)) [0..<h] =
           map (\<lambda>x. 4 * (rw ! x) + offsets ! (q + 1)) [0..<h]"
    using assms(1) by (intro map_cong) simp_all
  show ?thesis
    unfolding map_upt_double a b
    using map_nth_fun [of "\<lambda>v. 4 * v + offsets ! q" rw]
          map_nth_fun [of "\<lambda>v. 4 * v + offsets ! (q + 1)" rw] assms(2)
    by simp
qed

lemma bayer_rows:
  assumes "0 < h" and "length s = h" and "\<forall>rw \<in> set s. length rw = h"
  shows "map (\<lambda>y. map (\<lambda>x. 4 * (s ! (y mod h) ! (x mod h)) + offsets ! ((y div h) * 2 + x div h))
              [0..<h + h]) [0..<h + h] =
         map (quad_row 0) s @ map (quad_row 2) s"
proof -
  have row: "map (\<lambda>x. 4 * (s ! i ! (x mod h)) + offsets ! (q + x div h)) [0..<h + h] = quad_row q (s ! i)"
    if "i < h" for i q
    unfolding quad_row_def using that assms by (intro bayer_row) simp_all
  define F where "F = (\<lambda>y. map (\<lambda>x. 4 * (s ! (y mod h) ! (x mod h)) + offsets ! ((y div h) * 2 + x div h))
              [0..<h + h])"
  have a: "map F [0..<h] = map (\<lambda>y. quad_row 0 (s ! y)) [0..<h]"
    unfolding F_def using row [of _ 0] by (intro map_cong) simp_all
  have b: "map (\<lambda>y. F (y + h)) [0..<h] = map (\<lambda>y. quad_row 2 (s ! y)) [0..<h]"
    unfolding F_def using row [of _ 2] assms(1) by (intro map_cong) simp_all
  have "map F [0..<h + h] = map F [0..<h] @ map (\<lambda>y. F (y + h)) [0..<h]"
    by (rule map_upt_double)
  also have "\<dots> = map (quad_row 0) s @ map (quad_row 2) s"
    unfolding a b
    using map_nth_fun [of "quad_row 0" s] map_nth_fun [of "quad_row 2" s] assms(2)
    by simp
  finally show ?thesis unfolding F_def .
qed

lemma mset_concat_quad_row:
  "mset (concat (map (quad_row q) s)) =
     image_mset (\<lambda>v. 4 * v + offsets ! q) (mset (concat s)) +
     image_mset (\<lambda>v. 4 * v + offsets ! (q + 1)) (mset (concat s))"
  by (induction s) (simp_all add: quad_row_def)

lemma generateBayerMatrix_step:
  assumes "sz \<noteq> 2" and "2 \<le> sz" and "even sz" and "generateBayerMatrix (sz div 2) = Some s"
  shows "generateBayerMatrix sz =
         Some (map (\<lambda>y. map (\<lambda>x. 4 * (s ! (y mod (sz div 2)) ! (x mod (sz div 2)))
                       + offsets ! ((y div (sz div 2)) * 2 + x div (sz div 2))) [0..<sz]) [0..<sz])"
  using assms by (subst generateBayerMatrix.simps) (simp add: Let_def)

lemma generateBayerMatrix_pow2:
  "\<exists>m. generateBayerMatrix (2 ^ Suc k) = Some m \<and> length m = 2 ^ Suc k \<and>
       (\<forall>rw \<in> set m. length rw = 2 ^ Suc k) \<and>
       mset (concat m) = mset [0..<2 ^ Suc k * 2 ^ Suc k]"
proof (induction k)
  case 0
  have "generateBayerMatrix 2 = Some BAYER_2" by (subst generateBayerMatrix.simps) simp
  moreover have "mset (concat BAYER_2) = mset [0..<4]"
    using upt_four [of 0] by (simp add: BAYER_2_def)
  ultimately show ?case by (simp add: BAYER_2_def)
next
  case (Suc k)
  define h :: nat where "h = 2 ^ Suc k"
  from Suc obtain s where s: "generateBayerMatrix h = Some s" "length s = h"
      "\<forall>rw \<in> set s. length rw = h" "mset (concat s) = mset [0..<h * h]"
    unfolding h_def by blast
  have h: "0 < h" "2 \<le> h" "2 ^ Suc (Suc k) = h + h" "(h + h) div 2 = h"
    unfolding h_def by simp_all
  define m where "m = map (quad_row 0) s @ map (quad_row 2) s"
  have "generateBayerMatrix (h + h) = Some m"
    using generateBayerMatrix_step [of "h + h" s] h s(1) bayer_rows [OF h(1) s(2) s(3)]
    by (simp add: m_def)
  moreover have "length m = h + h" by (simp add: m_def s(2))
  moreover have "\<forall>rw \<in> set m. length rw = h + h"
    using s(3) by (auto simp: m_def quad_row_def)
  moreover have "mset (concat m) = mset [0..<(h + h) * (h + h)]"
  proof -
    have o: "offsets ! 0 = 0" "offsets ! (0 + 1) = 2" "offsets ! 2 = 3" "offsets ! (2 + 1) = 1"
      by (simp_all add: offsets_def)
    have "mset (concat m) =
            mset (concat (map (quad_row 0) s)) + mset (concat (map (quad_row 2) s))"
      by (simp add: m_def)
    also have "\<dots> =
        image_mset (\<lambda>v. 4 * v + 0) (mset [0..<h * h]) + image_mset (\<lambda>v. 4 * v + 2) (mset [0..<h * h])
      + (image_mset (\<lambda>v. 4 * v + 3) (mset [0..<h * h]) + image_mset (\<lambda>v. 4 * v + 1) (mset [0..<h * h]))"
      by (simp only: mset_concat_quad_row o s(4))
    also have "\<dots> = mset [0..<4 * (h * h)]"
      by (simp only: mset_upt_times4)
    also have "4 * (h * h) = (h + h) * (h + h)" by (simp add: algebra_simps)
    finally show ?thesis .
  qed
  ultimately show ?case unfolding h(3) by blast
qed

lemma generateBayerMatrix_permutation:
  "\<exists>m. generateBayerMatrix (2 ^ Suc k) = Some m \<and> permutation_matrix (2 ^ Suc k) m"
proof -
  from generateBayerMatrix_pow2 [of k] obtain m where m:
    "generateBayerMatrix (2 ^ Suc k) = Some m" "length m = 2 ^ Suc k"
    "\<forall>row \<in> set m. length row = 2 ^ Suc k"
    "mset (concat m) = mset [0..<2 ^ Suc k * 2 ^ Suc k]"
    by blast
  from m(2,3) have "map length m = replicate (2 ^ Suc k) (2 ^ Suc k)"
    by (metis length_map map_replicate_const map_eq_conv)
  with m show ?thesis unfolding permutation_matrix_def by blast
qed

lemma generateBayerMatrix_2: "generateBayerMatrix 2 = Some BAYER_2"
  by (subst generateBayerMatrix.simps) simp

lemma generateBayerMatrix_4: "generateBayerMatrix 4 = Some BAYER_4"
  by code_simp

lemma generateBayerMatrix_8: "generateBayerMatrix 8 = Some BAYER_8"
  by code_simp

lemma generateBayerMatrix_16: "generateBayerMatrix 16 = Some BAYER_16"
  using generateBayerMatrix_permutation [of 3] by (auto simp: BAYER_16_def)

text \<open>
  C8. The literal tables \<open>BAYER_4\<close> and \<open>BAYER_8\<close> are, entry for entry, the matrices
  that the recursive construction \<open>generateBayerMatrix\<close> produces for the sizes 4 and 8
  from the seed \<open>BAYER_2 = [[0,2],[3,1]]\<close> and the quadrant offsets \<open>[0,2,3,1]\<close>.
\<close>

theorem bayer_tables_generated:
  "BAYER_2 = [[0, 2], [3, 1]] \<and> offsets = [0, 2, 3, 1] \<and>
   generateBayerMatrix 2 = Some BAYER_2 \<and>
   generateBayerMatrix 4 = Some BAYER_4 \<and>
   generateBayerMatrix 8 = Some BAYER_8"
  by (simp add: generateBayerMatrix_2 generateBayerMatrix_4 generateBayerMatrix_8)
     (simp add: BAYER_2_def offsets_def)

text \<open>
  C5. For each size \<open>N\<close> among 2, 4, 8 and 16, \<open>generateBayerMatrix N\<close> returns an
  \<open>N \<times> N\<close> matrix in which every integer of \<open>[0, N\<^sup>2)\<close> occurs exactly once.
\<close>

theorem generateBayerMatrix_is_permutation:
  "(\<exists>m. generateBayerMatrix 2 = Some m \<and> permutation_matrix 2 m) \<and>
   (\<exists>m. generateBayerMatrix 4 = Some m \<and> permutation_matrix 4 m) \<and>
   (\<exists>m. generateBayerMatrix 8 = Some m \<and> permutation_matrix 8 m) \<and>
   (\<exists>m. generateBayerMatrix 16 = Some m \<and> permutation_matrix 16 m)"
  using generateBayerMatrix_permutation [of 0] generateBayerMatrix_permutation [of 1]
        generateBayerMatrix_permutation [of 2] generateBayerMatrix_permutation [of 3]
  by simp

text \<open>
  C2, as the code has it. \<open>getBayerMatrix\<close> follows the mapping size \<open>\<le> 2 \<rightarrow> 2\<close>,
  \<open>\<le> 4 \<rightarrow> 4\<close>, \<open>\<le> 8 \<rightarrow> 8\<close>, otherwise 16: for a request of at most 16 it returns the
  smallest supported size that is not below the request (so the returned size may exceed
  the request), and 16 for every larger request. The returned maximum is the square of
  the returned size, and the returned matrix is the generated matrix of that size.
\<close>

theorem getBayerMatrix_mapping:
  "size_m (getBayerMatrix sz) = (if sz \<le> 2 then 2 else if sz \<le> 4 then 4 else if sz \<le> 8 then 8 else 16) \<and>
   max_m (getBayerMatrix sz) = size_m (getBayerMatrix sz) * size_m (getBayerMatrix sz) \<and>
   generateBayerMatrix (size_m (getBayerMatrix sz)) = Some (matrix (getBayerMatrix sz)) \<and>
   (sz \<le> 16 \<longrightarrow> sz \<le> real (size_m (getBayerMatrix sz)) \<and>
      (\<forall>s \<in> {2, 4, 8, 16}. sz \<le> real s \<longrightarrow> size_m (getBayerMatrix sz) \<le> s)) \<and>
   (16 < sz \<longrightarrow> size_m (getBayerMatrix sz) = 16)"
  by (simp add: getBayerMatrix_def generateBayerMatrix_2 generateBayerMatrix_4
        generateBayerMatrix_8 generateBayerMatrix_16)

theorem getBayerMatrix_mapping_witness:
  "size_m (getBayerMatrix 3) = 4 \<and> max_m (getBayerMatrix 3) = 16 \<and>
   generateBayerMatrix 4 = Some (matrix (getBayerMatrix 3)) \<and>
   (3::real) \<le> 16 \<and> (3::real) \<le> real (4::nat) \<and> size_m (getBayerMatrix 3) \<le> 4 \<and>
   (16::real) < 100 \<and> size_m (getBayerMatrix 100) = 16"
  using getBayerMatrix_mapping [of 3] getBayerMatrix_mapping [of 100] by auto

text \<open>
  C2 as stated says that the returned size does not exceed the request. For the
  request 3 the code returns the size 4.
\<close>

theorem getBayerMatrix_exceeds_counterexample:
  "size_m (getBayerMatrix 3) = 4 \<and> \<not> real (size_m (getBayerMatrix 3)) \<le> 3"
  by (simp add: getBayerMatrix_def)

section \<open>Properties of quantisation\<close>










lemma level_collide_value: "level 257 128 = 128"
  by (simp add: level_def Math_round_def)


text \<open>
  The theorems below are about exact arithmetic. Binary64 rounding can move a product
  that is an exact tie: for 51 levels the step is \<open>5.1\<close>, and \<open>25 * 5.1\<close> is \<open>127.5\<close>
  exactly but just below it in binary64, so that the program returns 127 for the value
  125 where exact arithmetic gives 128.
\<close>

lemma quantize64_tie:
  "quantize (Num 125) 51 = Num 128 \<and> quantize64 125 51 = 127 \<and>
   binary64 (25 * binary64 (255 / 50)) < 255 / 2"
  by code_simp




section \<open>Properties of the gradients\<close>














section \<open>Properties of the dithering\<close>

lemma toUint8Clamp_byte: "v \<le> 255 \<Longrightarrow> toUint8Clamp (Num (real v)) = v"
  by (simp add: toUint8Clamp_def Let_def)

lemma Uint8ClampedArray_from_bytes:
  assumes "\<forall>v \<in> set pixels. v \<le> 255"
  shows "Uint8ClampedArray_from pixels = pixels"
  unfolding Uint8ClampedArray_from_def using assms by (intro map_idI) (simp add: toUint8Clamp_byte)

lemma applyDither_default:
  assumes "algorithm \<notin> {''bayer'', ''floyd-steinberg'', ''atkinson'', ''random''}"
  shows "applyDither pixels width height algorithm strength sz colorLevels rnd = Uint8ClampedArray_from pixels"
  using assms by (simp add: applyDither_def)

text \<open>
  C9. For an algorithm name that is none of the four, \<open>applyDither\<close> returns a new
  buffer with the bytes of the input, and the input buffer is as it was.
\<close>

theorem applyDither_unknown_is_copy:
  assumes "algorithm \<notin> {''bayer'', ''floyd-steinberg'', ''atkinson'', ''random''}"
    and "pixels < length st" and "\<forall>v \<in> set (st ! pixels). v \<le> 255"
  shows "applyDither (st ! pixels) width height algorithm strength sz colorLevels rnd = st ! pixels \<and>
         (case applyDither_store st pixels width height algorithm strength sz colorLevels rnd of
            (st', out) \<Rightarrow> st' ! out = st ! pixels \<and> st' ! pixels = st ! pixels \<and> out \<noteq> pixels \<and>
                          take (length st) st' = st)"
  using assms applyDither_default [OF assms(1)] Uint8ClampedArray_from_bytes [OF assms(3)]
  by (simp add: applyDither_store_def nth_append)

theorem applyDither_unknown_is_copy_witness:
  "''sierra'' \<notin> {''bayer'', ''floyd-steinberg'', ''atkinson'', ''random''} \<and>
   (0::nat) < length [[200, 100, 50, 7 :: nat]] \<and>
   applyDither ([[200, 100, 50, 7]] ! 0) 1 1 ''sierra'' (1 / 2) 4 4 (\<lambda>i. 0) = [200, 100, 50, 7] \<and>
   applyDither_store [[200, 100, 50, 7]] 0 1 1 ''sierra'' (1 / 2) 4 4 (\<lambda>i. 0) =
     ([[200, 100, 50, 7], [200, 100, 50, 7]], 1)"
  using applyDither_unknown_is_copy [of "''sierra''" 0 "[[200, 100, 50, 7]]" 1 1 "1 / 2" 4 4 "\<lambda>i. 0"]
  by (simp add: applyDither_store_def)

text \<open>
  C1 at one pixel with alpha 7. The ordered and the random algorithm return the alpha
  sample of the input, where the two diffusion algorithms return 255; the lengths are
  equal and the colour samples are in [0,255].
\<close>

theorem applyDither_alpha_at_input:
  "applyDither [200, 100, 50, 7] 1 1 ''bayer'' (1 / 2) 4 4 (\<lambda>i. 0) = [170, 0, 0, 7] \<and>
   applyDither [200, 100, 50, 7] 1 1 ''random'' (1 / 2) 1 4 (\<lambda>i. 1 / 2) = [170, 85, 85, 7] \<and>
   applyDither [200, 100, 50, 7] 1 1 ''floyd-steinberg'' (1 / 2) 1 4 (\<lambda>i. 0) = [170, 85, 85, 255] \<and>
   applyDither [200, 100, 50, 7] 1 1 ''atkinson'' (1 / 2) 1 4 (\<lambda>i. 0) = [170, 85, 85, 255]"
  by code_simp


lemma px_bound:
  assumes "y < sh" "x < sw"
  shows "px_idx sw y x + 3 < sw * sh * 4"
proof -
  have "y * sw + x < y * sw + sw" using assms by simp
  also have "\<dots> = Suc y * sw" by simp
  also have "\<dots> \<le> sh * sw" using assms by (intro mult_le_mono1) simp
  finally have "y * sw + x + 1 \<le> sw * sh" by (simp add: mult.commute)
  then have "4 * (y * sw + x + 1) \<le> 4 * (sw * sh)" by (rule mult_le_mono2)
  then show ?thesis unfolding px_idx_def by (simp add: algebra_simps)
qed

lemma px_idx_shift:
  "px_idx sw y x + 4 + c = px_idx sw y (x + 1) + c"
  "px_idx sw y x + 8 + c = px_idx sw y (x + 2) + c"
  "0 < x \<Longrightarrow> px_idx sw y x + sw * 4 - 4 + c = px_idx sw (y + 1) (x - 1) + c"
  "px_idx sw y x + sw * 4 + c = px_idx sw (y + 1) x + c"
  "px_idx sw y x + sw * 4 + 4 + c = px_idx sw (y + 1) (x + 1) + c"
  "px_idx sw y x + sw * 8 + c = px_idx sw (y + 2) x + c"
  by (simp_all add: px_idx_def algebra_simps)

lemma px_bound_c:
  assumes "y < sh" "x < sw" "c < 3"
  shows "px_idx sw y x + c < sw * sh * 4"
  using px_bound [OF assms(1,2)] assms(3) by simp





lemma set_if_list: "set (if P then xs else []) = (if P then set xs else {})"
  by (cases P) simp_all

lemma fs_targets_raw:
  assumes "(j, f) \<in> set (fs_targets sw sh y x c)"
  shows "(x + 1 < sw \<and> j = px_idx sw y x + 4 + c) \<or>
         (y + 1 < sh \<and> 0 < x \<and> j = px_idx sw y x + sw * 4 - 4 + c) \<or>
         (y + 1 < sh \<and> j = px_idx sw y x + sw * 4 + c) \<or>
         (y + 1 < sh \<and> x + 1 < sw \<and> j = px_idx sw y x + sw * 4 + 4 + c)"
  using assms unfolding fs_targets_def Let_def set_append set_if_list
  by (auto split: if_split_asm)

lemma fs_targets_cases:
  assumes "(j, f) \<in> set (fs_targets sw sh y x c)"
  shows "(x + 1 < sw \<and> j = px_idx sw y (x + 1) + c) \<or>
         (y + 1 < sh \<and> 0 < x \<and> j = px_idx sw (y + 1) (x - 1) + c) \<or>
         (y + 1 < sh \<and> j = px_idx sw (y + 1) x + c) \<or>
         (y + 1 < sh \<and> x + 1 < sw \<and> j = px_idx sw (y + 1) (x + 1) + c)"
  using fs_targets_raw [OF assms]
  by (elim disjE conjE; simp only: px_idx_shift; blast)

lemma fs_targets_bound:
  assumes "y < sh" "x < sw" "c < 3" "(j, f) \<in> set (fs_targets sw sh y x c)"
  shows "j < sw * sh * 4"
  using fs_targets_cases [OF assms(4)] assms(1-3)
  by (elim disjE conjE) (simp_all add: px_bound_c)


lemma atkinson_targets_raw:
  assumes "j \<in> set (atkinson_targets sw sh y x c)"
  shows "(x + 1 < sw \<and> j = px_idx sw y x + 4 + c) \<or>
         (x + 2 < sw \<and> j = px_idx sw y x + 8 + c) \<or>
         (y + 1 < sh \<and> 0 < x \<and> j = px_idx sw y x + sw * 4 - 4 + c) \<or>
         (y + 1 < sh \<and> j = px_idx sw y x + sw * 4 + c) \<or>
         (y + 1 < sh \<and> x + 1 < sw \<and> j = px_idx sw y x + sw * 4 + 4 + c) \<or>
         (y + 2 < sh \<and> j = px_idx sw y x + sw * 8 + c)"
  using assms unfolding atkinson_targets_def Let_def set_append set_if_list
  by (auto split: if_split_asm)

lemma atkinson_targets_cases:
  assumes "j \<in> set (atkinson_targets sw sh y x c)"
  shows "(x + 1 < sw \<and> j = px_idx sw y (x + 1) + c) \<or>
         (x + 2 < sw \<and> j = px_idx sw y (x + 2) + c) \<or>
         (y + 1 < sh \<and> 0 < x \<and> j = px_idx sw (y + 1) (x - 1) + c) \<or>
         (y + 1 < sh \<and> j = px_idx sw (y + 1) x + c) \<or>
         (y + 1 < sh \<and> x + 1 < sw \<and> j = px_idx sw (y + 1) (x + 1) + c) \<or>
         (y + 2 < sh \<and> j = px_idx sw (y + 2) x + c)"
  using atkinson_targets_raw [OF assms]
  by (elim disjE conjE; simp only: px_idx_shift; blast)

lemma atkinson_targets_bound:
  assumes "y < sh" "x < sw" "c < 3" "j \<in> set (atkinson_targets sw sh y x c)"
  shows "j < sw * sh * 4"
  using atkinson_targets_cases [OF assms(4)] assms(1-3)
  by (elim disjE conjE) (simp_all add: px_bound_c)


lemma floor_div_nat: "0 < k \<Longrightarrow> nat \<lfloor>real n / real k\<rfloor> = n div k"
  by (simp add: floor_divide_of_nat_eq)

lemma scaled_coord:
  fixes x k w :: nat
  assumes "0 < k" "x < w div k"
  shows "x * k < w"
proof -
  have "Suc x \<le> w div k" using assms by simp
  then have "Suc x * k \<le> (w div k) * k" by (rule mult_le_mono1)
  also have "\<dots> \<le> w" by simp
  finally show ?thesis using assms(1) by simp
qed

lemma src_idx_nat:
  assumes k: "0 < k" and y: "y < h div k" and x: "x < w div k"
  shows "src_idx w (real k) y x = real (px_idx w (y * k) (x * k)) \<and>
         px_idx w (y * k) (x * k) + 3 < w * h * 4"
proof -
  have "px_idx w (y * k) (x * k) + 3 < w * h * 4"
    using scaled_coord [OF k y] scaled_coord [OF k x] by (intro px_bound)
  moreover have "src_idx w (real k) y x = real (px_idx w (y * k) (x * k))"
    by (simp add: src_idx_def px_idx_def Let_def)
  ultimately show ?thesis by simp
qed

lemma up_src_idx_bound:
  assumes k: "0 < k" and sw: "1 \<le> sw" and sh: "1 \<le> sh"
  shows "0 \<le> up_src_idx (real k) sw sh y x \<and> up_src_idx (real k) sw sh y x + 3 < int (sw * sh * 4)"
proof -
  define srcX where "srcX = min \<lfloor>real x / real k\<rfloor> (int sw - 1)"
  define srcY where "srcY = min \<lfloor>real y / real k\<rfloor> (int sh - 1)"
  have x0: "0 \<le> srcX" using sw k by (simp add: srcX_def)
  have y0: "0 \<le> srcY" using sh k by (simp add: srcY_def)
  have x1: "nat srcX < sw" using sw by (simp add: srcX_def)
  have y1: "nat srcY < sh" using sh by (simp add: srcY_def)
  have e: "up_src_idx (real k) sw sh y x = int (px_idx sw (nat srcY) (nat srcX))"
    using x0 y0 by (simp add: up_src_idx_def Let_def srcX_def [symmetric] srcY_def [symmetric] px_idx_def)
  have "px_idx sw (nat srcY) (nat srcX) + 3 < sw * sh * 4" using y1 x1 by (rule px_bound)
  then have "int (px_idx sw (nat srcY) (nat srcX)) + 3 < int (sw * sh * 4)" by linarith
  then show ?thesis unfolding e by simp
qed

lemma fold_length:
  assumes "\<And>a s. length (f a s) = length s"
  shows "length (fold f xs s) = length s"
  using assms by (induction xs arbitrary: s) simp_all

lemma downsample_length:
  "length (downsample pixels w scale sw sh) = sw * sh * 4"
  unfolding downsample_def by (simp add: fold_length Let_def)

lemma upsample_length:
  "length (upsample scaled len w h scale sw sh) = len"
  unfolding upsample_def by (simp add: fold_length Let_def upsample_pixel_def)

lemma fs_channel_length:
  "length (fs_channel strength colorLevels sw sh y x c s) = length s"
  unfolding fs_channel_def Let_def by (simp add: fold_length split_def)

lemma atkinson_channel_length:
  "length (atkinson_channel strength colorLevels sw sh y x c s) = length s"
  unfolding atkinson_channel_def Let_def by (simp add: fold_length)





text \<open>
  C10. With a scale that is a positive integer \<open>k\<close> and a working buffer of at least one
  pixel in each direction, the working buffer has \<open>floor(width / k)\<close> by
  \<open>floor(height / k)\<close> pixels, and every index that the two diffusion algorithms compute
  is an integer inside the buffer it addresses: the source index of the downsampling
  inside \<open>pixels\<close>, the indices of the diffusion pass inside the working buffer, and the
  indices of the upsampling inside the working buffer and the output, which has the
  length of \<open>pixels\<close>.
\<close>

theorem diffusion_indices_in_bounds:
  fixes k w h :: nat
  assumes "0 < k" and "1 \<le> w div k" and "1 \<le> h div k" and "length pixels = w * h * 4"
  defines "sw \<equiv> w div k" and "sh \<equiv> h div k"
  shows
    "nat \<lfloor>real w / real k\<rfloor> = sw \<and> nat \<lfloor>real h / real k\<rfloor> = sh \<and>
     length (downsample pixels w (real k) sw sh) = sw * sh * 4 \<and>
     (\<forall>s y x c. length (fs_channel strength colorLevels sw sh y x c s) = length s \<and>
                length (atkinson_channel strength colorLevels sw sh y x c s) = length s) \<and>
     (\<forall>scaled. length (upsample scaled (length pixels) w h (real k) sw sh) = length pixels) \<and>
     (\<forall>y<sh. \<forall>x<sw.
        (\<exists>n. src_idx w (real k) y x = real n \<and> n + 2 < length pixels) \<and>
        px_idx sw y x + 3 < sw * sh * 4 \<and>
        (\<forall>c<3. px_idx sw y x + c < sw * sh * 4 \<and>
           (\<forall>j \<in> fst ` set (fs_targets sw sh y x c). j < sw * sh * 4) \<and>
           (\<forall>j \<in> set (atkinson_targets sw sh y x c). j < sw * sh * 4))) \<and>
     (\<forall>y<h. \<forall>x<w.
        0 \<le> up_src_idx (real k) sw sh y x \<and>
        up_src_idx (real k) sw sh y x + 2 < int (sw * sh * 4) \<and>
        px_idx w y x + 3 < length pixels)"
proof (intro conjI allI impI ballI)
  show "nat \<lfloor>real w / real k\<rfloor> = sw" unfolding sw_def using assms(1) by (rule floor_div_nat)
  show "nat \<lfloor>real h / real k\<rfloor> = sh" unfolding sh_def using assms(1) by (rule floor_div_nat)
  show "length (downsample pixels w (real k) sw sh) = sw * sh * 4" by (rule downsample_length)
next
  fix s y x c
  show "length (fs_channel strength colorLevels sw sh y x c s) = length s" by (rule fs_channel_length)
  show "length (atkinson_channel strength colorLevels sw sh y x c s) = length s"
    by (rule atkinson_channel_length)
next
  fix scaled
  show "length (upsample scaled (length pixels) w h (real k) sw sh) = length pixels"
    by (rule upsample_length)
next
  fix y x assume yx: "y < sh" "x < sw"
  from src_idx_nat [OF assms(1) yx(1) [unfolded sh_def] yx(2) [unfolded sw_def]]
  show "\<exists>n. src_idx w (real k) y x = real n \<and> n + 2 < length pixels"
    unfolding assms(4) by (intro exI [of _ "px_idx w (y * k) (x * k)"]) simp
  show "px_idx sw y x + 3 < sw * sh * 4" using yx by (rule px_bound)
  fix c :: nat assume c: "c < 3"
  show "px_idx sw y x + c < sw * sh * 4" using yx c by (rule px_bound_c)
  {
    fix j assume "j \<in> fst ` set (fs_targets sw sh y x c)"
    then obtain f where "(j, f) \<in> set (fs_targets sw sh y x c)" by force
    then show "j < sw * sh * 4" using yx c by (intro fs_targets_bound)
  }
  {
    fix j assume "j \<in> set (atkinson_targets sw sh y x c)"
    then show "j < sw * sh * 4" using yx c by (intro atkinson_targets_bound)
  }
next
  fix y x assume yx: "y < h" "x < w"
  from up_src_idx_bound [OF assms(1), of sw sh y x] assms(2,3)
  show "0 \<le> up_src_idx (real k) sw sh y x" "up_src_idx (real k) sw sh y x + 2 < int (sw * sh * 4)"
    unfolding sw_def sh_def by simp_all
  show "px_idx w y x + 3 < length pixels" unfolding assms(4) using yx by (rule px_bound)
qed

theorem diffusion_indices_in_bounds_witness:
  "(0::nat) < 2 \<and> (1::nat) \<le> 5 div 2 \<and> (1::nat) \<le> 4 div 2 \<and> length (replicate 80 (0::nat)) = 5 * 4 * 4 \<and>
   nat \<lfloor>real (5::nat) / real (2::nat)\<rfloor> = 2 \<and>
   length (downsample (replicate 80 0) 5 (real (2::nat)) 2 2) = 16 \<and>
   src_idx 5 (real (2::nat)) 1 1 = 48 \<and> (48::nat) + 2 < length (replicate 80 (0::nat)) \<and>
   px_idx 2 1 1 + 3 < (16::nat) \<and>
   fs_targets 2 2 0 0 2 = [(6, 7 / 16), (10, 5 / 16), (14, 1 / 16)] \<and>
   atkinson_targets 2 2 0 0 2 = [6, 10, 14] \<and>
   up_src_idx (real (2::nat)) 2 2 3 4 = 12 \<and> px_idx 5 3 4 + 3 < length (replicate 80 (0::nat))"
  using diffusion_indices_in_bounds [where k = 2 and w = 5 and h = 4 and pixels = "replicate 80 0"]
  by (simp add: px_idx_def src_idx_def up_src_idx_def fs_targets_def atkinson_targets_def downsample_length)

text \<open>
  The scale reaches the diffusion algorithms as \<open>Math.max(1, size)\<close>, not rounded. With
  the scale \<open>1.3\<close> the source index of the second pixel is \<open>5.2\<close>, and reading \<open>pixels\<close>
  there gives \<open>undefined\<close>.
\<close>

lemma downsample_fractional_scale:
  "max 1 (13 / 10 :: real) = 13 / 10 \<and> src_idx 3 (13 / 10) 0 1 = 26 / 5 \<and>
   rd_px pixels (26 / 5) = NaN"
  by (simp add: src_idx_def rd_px_def)

section \<open>The shape of the output of the dithering\<close>

lemma toUint8Clamp_le: "toUint8Clamp v \<le> 255"
proof (cases v)
  case NaN
  then show ?thesis by (simp add: toUint8Clamp_def)
next
  case (Num x)
  show ?thesis
  proof (cases "x \<le> 0 \<or> 255 \<le> x")
    case True
    then show ?thesis using Num by (auto simp: toUint8Clamp_def)
  next
    case False
    then have "0 < x" "x < 255" by simp_all
    then have "\<lfloor>x\<rfloor> \<le> 254" "0 \<le> \<lfloor>x\<rfloor>" by (simp_all add: floor_le_iff)
    then have "nat \<lfloor>x\<rfloor> \<le> 255" "nat (\<lfloor>x\<rfloor> + 1) \<le> 255" by linarith+
    then show ?thesis using Num by (simp add: toUint8Clamp_def Let_def)
  qed
qed

lemma toUint8Clamp_nat: "toUint8Clamp (Num (real v)) = min v 255"
proof (cases "v = 0 \<or> 255 \<le> v")
  case True
  then show ?thesis by (auto simp: toUint8Clamp_def)
next
  case False
  then show ?thesis by (simp add: toUint8Clamp_def Let_def)
qed

lemma fold_invariant:
  assumes "P s" and "\<And>a s. a \<in> set xs \<Longrightarrow> P s \<Longrightarrow> P (f a s)"
  shows "P (fold f xs s)"
  using assms by (induction xs arbitrary: s) simp_all

lemma fold_establish:
  assumes "a \<in> set xs"
    and "\<And>s. I s \<Longrightarrow> Q (f a s)"
    and "\<And>b s. I s \<Longrightarrow> I (f b s)"
    and "\<And>b s. I s \<Longrightarrow> Q s \<Longrightarrow> Q (f b s)"
    and "I s"
  shows "Q (fold f xs s)"
  using assms(1,5)
proof (induction xs arbitrary: s)
  case Nil
  then show ?case by simp
next
  case (Cons b xs)
  show ?case
  proof (cases "a = b")
    case True
    have "I (f b s)" using Cons.prems(2) by (rule assms(3))
    moreover have "Q (f b s)" using assms(2) [OF Cons.prems(2)] True by simp
    ultimately have "I (fold f xs (f b s)) \<and> Q (fold f xs (f b s))"
      by (intro fold_invariant [where P = "\<lambda>s. I s \<and> Q s"]) (auto intro: assms(3,4))
    then show ?thesis by simp
  next
    case False
    then have "a \<in> set xs" using Cons.prems(1) by simp
    moreover have "I (f b s)" using Cons.prems(2) by (rule assms(3))
    ultimately show ?thesis using Cons.IH by simp
  qed
qed

lemma px_idx_mod: "c < 4 \<Longrightarrow> (px_idx w y x + c) mod 4 = c"
  unfolding px_idx_def by (simp only: mod_mult_self4) simp

lemma colour_write_shape:
  assumes "shape n A out" and "c < 3"
  shows "shape n A (out[px_idx w y x + c := toUint8Clamp q])"
  unfolding shape_def
proof (intro conjI ballI allI impI)
  show "length (out[px_idx w y x + c := toUint8Clamp q]) = n" using assms(1) by (simp add: shape_def)
next
  fix v assume "v \<in> set (out[px_idx w y x + c := toUint8Clamp q])"
  then have "v = toUint8Clamp q \<or> v \<in> set out"
    using set_update_subset_insert [of out "px_idx w y x + c" "toUint8Clamp q"] by auto
  then show "v \<le> 255" using assms(1) toUint8Clamp_le [of q] by (auto simp: shape_def)
next
  fix i assume i: "i < n" "i mod 4 = 3"
  have "(px_idx w y x + c) mod 4 = c" using assms(2) by (intro px_idx_mod) simp
  then have "i \<noteq> px_idx w y x + c" using i(2) assms(2) by auto
  then show "out[px_idx w y x + c := toUint8Clamp q] ! i = A i" using assms(1) i by (simp add: shape_def)
qed

lemma Uint8ClampedArray_from_shape:
  "shape (length pixels) (\<lambda>i. min (pixels ! i) 255) (Uint8ClampedArray_from pixels)"
  unfolding shape_def Uint8ClampedArray_from_def
  by (simp add: toUint8Clamp_le toUint8Clamp_nat)

lemma bayerDither_shape:
  "shape (length pixels) (\<lambda>i. min (pixels ! i) 255) (bayerDither pixels w h strength sz colorLevels)"
  unfolding bayerDither_def Let_def
  apply (rule fold_invariant [where P = "shape (length pixels) (\<lambda>i. min (pixels ! i) 255)"])
   apply (rule Uint8ClampedArray_from_shape)
  apply (rule fold_invariant [where P = "shape (length pixels) (\<lambda>i. min (pixels ! i) 255)"])
   apply assumption
  apply (rule fold_invariant [where P = "shape (length pixels) (\<lambda>i. min (pixels ! i) 255)"])
   apply assumption
  apply (rule colour_write_shape)
   apply assumption
  apply simp
  done

lemma randomDither_shape:
  "shape (length pixels) (\<lambda>i. min (pixels ! i) 255) (randomDither pixels w h strength grain colorLevels rnd)"
  unfolding randomDither_def Let_def
  apply (rule fold_invariant [where P = "shape (length pixels) (\<lambda>i. min (pixels ! i) 255)"])
   apply (rule Uint8ClampedArray_from_shape)
  apply (rule fold_invariant [where P = "shape (length pixels) (\<lambda>i. min (pixels ! i) 255)"])
   apply assumption
  apply (rule fold_invariant [where P = "shape (length pixels) (\<lambda>i. min (pixels ! i) 255)"])
   apply assumption
  apply (rule colour_write_shape)
   apply assumption
  apply simp
  done

lemma toUint8Clamp_255: "toUint8Clamp (Num 255) = 255"
  by (simp add: toUint8Clamp_def)

lemma upsample_pixel_length:
  "length (upsample_pixel scaled w scale sw sh y x out) = length out"
  by (simp add: upsample_pixel_def Let_def)

lemma bytes_update:
  assumes "\<forall>v \<in> set out. v \<le> (255::nat)" and "q \<le> 255"
  shows "\<forall>v \<in> set (out[i := q]). v \<le> 255"
proof
  fix v assume "v \<in> set (out[i := q])"
  then have "v = q \<or> v \<in> set out"
    using set_update_subset_insert [of out i q] by auto
  then show "v \<le> 255" using assms by auto
qed

lemma upsample_pixel_bytes:
  assumes "\<forall>v \<in> set out. v \<le> 255"
  shows "\<forall>v \<in> set (upsample_pixel scaled w scale sw sh y x out). v \<le> 255"
  unfolding upsample_pixel_def Let_def
  by (intro bytes_update toUint8Clamp_le assms)

lemma upsample_pixel_alpha_set:
  assumes "px_idx w y x + 3 < length out"
  shows "upsample_pixel scaled w scale sw sh y x out ! (px_idx w y x + 3) = 255"
  using assms by (simp add: upsample_pixel_def Let_def toUint8Clamp_255)

lemma upsample_pixel_alpha_kept:
  assumes "i mod 4 = 3" and "out ! i = 255"
  shows "upsample_pixel scaled w scale sw sh y x out ! i = 255"
proof -
  have m: "(px_idx w y x + 0) mod 4 = 0" "(px_idx w y x + 1) mod 4 = 1" "(px_idx w y x + 2) mod 4 = 2"
    by (simp_all only: px_idx_mod)
  have n: "i \<noteq> px_idx w y x" "i \<noteq> px_idx w y x + 1" "i \<noteq> px_idx w y x + 2"
    using m assms(1) by auto
  show ?thesis
  proof (cases "i = px_idx w y x + 3")
    case eq: True
    show ?thesis
    proof (cases "i < length out")
      case True
      with eq show ?thesis
        by (simp add: upsample_pixel_def Let_def toUint8Clamp_255)
    next
      case False
      then have "length out \<le> px_idx w y x + 3" using eq by simp
      then show ?thesis using assms(2) eq
        by (simp add: upsample_pixel_def Let_def list_update_beyond)
    qed
  next
    case False
    then show ?thesis using n assms(2) by (simp add: upsample_pixel_def Let_def)
  qed
qed

lemma upsample_bytes:
  "\<forall>v \<in> set (upsample scaled len w h scale sw sh). v \<le> 255"
  unfolding upsample_def
  apply (rule fold_invariant [where P = "\<lambda>out. \<forall>v \<in> set out. v \<le> 255"])
   apply simp
  apply (rule fold_invariant [where P = "\<lambda>out. \<forall>v \<in> set out. v \<le> 255"])
   apply assumption
  apply (rule upsample_pixel_bytes)
  apply assumption
  done

lemma upsample_row_alpha_kept:
  assumes "i mod 4 = 3" and "out ! i = 255"
  shows "fold (\<lambda>x. upsample_pixel scaled w scale sw sh y x) xs out ! i = 255"
  apply (rule fold_invariant [where P = "\<lambda>out. out ! i = 255"])
   apply (rule assms(2))
  apply (rule upsample_pixel_alpha_kept [OF assms(1)])
  apply assumption
  done

lemma upsample_row_length:
  "length (fold (\<lambda>x. upsample_pixel scaled w scale sw sh y x) xs out) = length out"
  by (rule fold_length) (rule upsample_pixel_length)

lemma upsample_row_alpha_set:
  assumes "x < w" and "px_idx w y x + 3 < length out"
  shows "fold (\<lambda>x. upsample_pixel scaled w scale sw sh y x) [0..<w] out ! (px_idx w y x + 3) = 255"
proof (rule fold_establish [where a = x and I = "\<lambda>s. length s = length out"
        and Q = "\<lambda>s. s ! (px_idx w y x + 3) = 255"])
  show "x \<in> set [0..<w]" using assms(1) by simp
  show "length out = length out" ..
next
  fix s :: "nat list" assume "length s = length out"
  then show "upsample_pixel scaled w scale sw sh y x s ! (px_idx w y x + 3) = 255"
    using assms(2) by (intro upsample_pixel_alpha_set) simp
next
  fix b' and s :: "nat list" assume "length s = length out"
  then show "length (upsample_pixel scaled w scale sw sh y b' s) = length out"
    by (simp add: upsample_pixel_length)
next
  fix b' and s :: "nat list" assume "s ! (px_idx w y x + 3) = 255"
  then show "upsample_pixel scaled w scale sw sh y b' s ! (px_idx w y x + 3) = 255"
    by (intro upsample_pixel_alpha_kept px_idx_mod) simp_all
qed

lemma upsample_alpha_pixel:
  assumes "y < h" and "x < w" and "px_idx w y x + 3 < len"
  shows "upsample scaled len w h scale sw sh ! (px_idx w y x + 3) = 255"
  unfolding upsample_def
proof (rule fold_establish [where a = y and I = "\<lambda>s. length s = len"
        and Q = "\<lambda>s. s ! (px_idx w y x + 3) = 255"])
  show "y \<in> set [0..<h]" using assms(1) by simp
  show "length (replicate len (0::nat)) = len" by simp
next
  fix s :: "nat list" assume "length s = len"
  then show "fold (\<lambda>x. upsample_pixel scaled w scale sw sh y x) [0..<w] s ! (px_idx w y x + 3) = 255"
    using assms(2,3) by (intro upsample_row_alpha_set) simp_all
next
  fix b' and s :: "nat list" assume "length s = len"
  then show "length (fold (\<lambda>x. upsample_pixel scaled w scale sw sh b' x) [0..<w] s) = len"
    by (simp add: upsample_row_length)
next
  fix b' and s :: "nat list" assume "s ! (px_idx w y x + 3) = 255"
  then show "fold (\<lambda>x. upsample_pixel scaled w scale sw sh b' x) [0..<w] s ! (px_idx w y x + 3) = 255"
    by (intro upsample_row_alpha_kept px_idx_mod) simp_all
qed

lemma alpha_index:
  assumes "i < w * h * 4" and "i mod 4 = 3"
  shows "\<exists>y x. y < h \<and> x < w \<and> i = px_idx w y x + 3"
proof (intro exI conjI)
  have w: "0 < w" using assms(1) by (cases w) simp_all
  have d: "i div 4 < h * w" using assms(1) by (simp add: less_mult_imp_div_less mult.commute)
  show "i div 4 div w < h" using d by (simp add: less_mult_imp_div_less)
  show "i div 4 mod w < w" using w by simp
  have "px_idx w (i div 4 div w) (i div 4 mod w) = 4 * (i div 4)" by (simp add: px_idx_def)
  then show "i = px_idx w (i div 4 div w) (i div 4 mod w) + 3"
    using assms(2) mult_div_mod_eq [of 4 i] by simp
qed

lemma upsample_shape:
  assumes "len = w * h * 4"
  shows "shape len (\<lambda>i. 255) (upsample scaled len w h scale sw sh)"
  unfolding shape_def
proof (intro conjI allI impI)
  show "length (upsample scaled len w h scale sw sh) = len" by (rule upsample_length)
  show "\<forall>v \<in> set (upsample scaled len w h scale sw sh). v \<le> 255" by (rule upsample_bytes)
next
  fix i assume "i < len" "i mod 4 = 3"
  then obtain y x where "y < h" "x < w" "i = px_idx w y x + 3"
    using alpha_index [of i w h] assms by auto
  then show "upsample scaled len w h scale sw sh ! i = 255"
    using \<open>i < len\<close> by (simp add: upsample_alpha_pixel)
qed

text \<open>
  What holds of C1 for every input: the output has the length of the input and all its
  samples are in [0,255]; the ordered and the random algorithm return the alpha samples
  of the input, and the two diffusion algorithms return alpha 255 throughout when the
  input has \<open>4 * width * height\<close> samples.
\<close>

lemma applyDither_output:
  "length (applyDither pixels w h algorithm strength sz colorLevels rnd) = length pixels \<and>
   (\<forall>v \<in> set (applyDither pixels w h algorithm strength sz colorLevels rnd). v \<le> 255)"
proof -
  have "shape (length pixels) (\<lambda>i. min (pixels ! i) 255)
          (bayerDither pixels w h strength sz colorLevels)" by (rule bayerDither_shape)
  moreover have "shape (length pixels) (\<lambda>i. min (pixels ! i) 255)
          (randomDither pixels w h strength (max 1 sz) colorLevels rnd)" by (rule randomDither_shape)
  moreover have "shape (length pixels) (\<lambda>i. min (pixels ! i) 255)
          (Uint8ClampedArray_from pixels)" by (rule Uint8ClampedArray_from_shape)
  ultimately show ?thesis
    unfolding applyDither_def floydSteinbergDither_def atkinsonDither_def Let_def
    using upsample_length upsample_bytes
    by (simp add: shape_def)
qed

lemma applyDither_alpha_copied:
  assumes "algorithm = ''bayer'' \<or> algorithm = ''random''"
    and "i < length pixels" and "i mod 4 = 3"
  shows "applyDither pixels w h algorithm strength sz colorLevels rnd ! i = min (pixels ! i) 255"
  using assms bayerDither_shape [of pixels w h strength sz colorLevels]
        randomDither_shape [of pixels w h strength "max 1 sz" colorLevels rnd]
  by (auto simp: applyDither_def shape_def)

lemma applyDither_alpha_forced:
  assumes "algorithm = ''floyd-steinberg'' \<or> algorithm = ''atkinson''"
    and "length pixels = w * h * 4" and "i < length pixels" and "i mod 4 = 3"
  shows "applyDither pixels w h algorithm strength sz colorLevels rnd ! i = 255"
proof -
  have "shape (length pixels) (\<lambda>i. 255) (upsample scaled (length pixels) w h scale sw sh)"
    for scaled scale sw sh
    using assms(2) by (rule upsample_shape)
  then show ?thesis
    using assms(1,3,4)
    unfolding applyDither_def floydSteinbergDither_def atkinsonDither_def Let_def shape_def
    by auto
qed

section \<open>The working buffer of the diffusion algorithms\<close>

lemma numbers_update:
  assumes "NaN \<notin> set s" and "v \<noteq> NaN"
  shows "NaN \<notin> set (s[i := v])"
proof
  assume "NaN \<in> set (s[i := v])"
  then have "NaN = v \<or> NaN \<in> set s"
    using set_update_subset_insert [of s i v] by auto
  then show False using assms by auto
qed

lemma rd_number:
  assumes "NaN \<notin> set s" and "i < length s"
  shows "\<exists>a. rd s i = Num a"
proof -
  have "s ! i \<in> set s" using assms(2) by simp
  then have "s ! i \<noteq> NaN" using assms(1) by metis
  then show ?thesis using assms(2) by (cases "s ! i") (simp_all add: rd_def)
qed

lemma quantize_number:
  assumes "colorLevels \<noteq> 1"
  shows "\<exists>q. quantize (Num a) colorLevels = Num q"
  using assms by (simp add: quantize_def Let_def)

lemma add_number:
  assumes "NaN \<notin> set s" and "length s = n" and "j < n"
  shows "NaN \<notin> set (s[j := jadd (rd s j) (Num e)]) \<and> length (s[j := jadd (rd s j) (Num e)]) = n"
proof -
  obtain a where "rd s j = Num a" using rd_number [of s j] assms by auto
  then show ?thesis using assms(1,2) by (simp add: numbers_update)
qed

lemma fs_channel_numbers:
  assumes "NaN \<notin> set s" and "length s = sw * sh * 4" and "y < sh" and "x < sw" and "c < 3"
    and "colorLevels \<noteq> 1"
  shows "NaN \<notin> set (fs_channel strength colorLevels sw sh y x c s) \<and>
         length (fs_channel strength colorLevels sw sh y x c s) = sw * sh * 4"
proof -
  have i: "px_idx sw y x + c < length s" using assms(2-5) by (simp add: px_bound_c)
  obtain a where a: "rd s (px_idx sw y x + c) = Num a" using rd_number [OF assms(1) i] by auto
  obtain q where q: "quantize (Num a) colorLevels = Num q" using quantize_number [OF assms(6)] by auto
  define s0 where "s0 = s[px_idx sw y x + c := Num q]"
  have s0: "NaN \<notin> set s0 \<and> length s0 = sw * sh * 4"
    using assms(1,2) by (simp add: s0_def numbers_update)
  have "NaN \<notin> set (fold (\<lambda>(j, fraction) scaled. scaled[j := jadd (rd scaled j) (Num ((a - q) * strength * fraction))])
            (fs_targets sw sh y x c) s0) \<and>
        length (fold (\<lambda>(j, fraction) scaled. scaled[j := jadd (rd scaled j) (Num ((a - q) * strength * fraction))])
            (fs_targets sw sh y x c) s0) = sw * sh * 4"
  proof (rule fold_invariant [where P = "\<lambda>t. NaN \<notin> set t \<and> length t = sw * sh * 4"], rule s0)
    fix p t assume p: "p \<in> set (fs_targets sw sh y x c)" and t: "NaN \<notin> set t \<and> length t = sw * sh * 4"
    obtain j f where jf: "p = (j, f)" by (cases p)
    have "j < sw * sh * 4" using fs_targets_bound [OF assms(3,4,5)] p jf by simp
    then show "NaN \<notin> set ((case p of (j, fraction) \<Rightarrow> \<lambda>scaled. scaled[j := jadd (rd scaled j) (Num ((a - q) * strength * fraction))]) t) \<and>
        length ((case p of (j, fraction) \<Rightarrow> \<lambda>scaled. scaled[j := jadd (rd scaled j) (Num ((a - q) * strength * fraction))]) t) = sw * sh * 4"
      using add_number [of t "sw * sh * 4" j] t jf by simp
  qed
  then show ?thesis
    unfolding fs_channel_def Let_def a q s0_def by simp
qed

lemma atkinson_channel_numbers:
  assumes "NaN \<notin> set s" and "length s = sw * sh * 4" and "y < sh" and "x < sw" and "c < 3"
    and "colorLevels \<noteq> 1"
  shows "NaN \<notin> set (atkinson_channel strength colorLevels sw sh y x c s) \<and>
         length (atkinson_channel strength colorLevels sw sh y x c s) = sw * sh * 4"
proof -
  have i: "px_idx sw y x + c < length s" using assms(2-5) by (simp add: px_bound_c)
  obtain a where a: "rd s (px_idx sw y x + c) = Num a" using rd_number [OF assms(1) i] by auto
  obtain q where q: "quantize (Num a) colorLevels = Num q" using quantize_number [OF assms(6)] by auto
  define s0 where "s0 = s[px_idx sw y x + c := Num q]"
  have s0: "NaN \<notin> set s0 \<and> length s0 = sw * sh * 4"
    using assms(1,2) by (simp add: s0_def numbers_update)
  have "NaN \<notin> set (fold (\<lambda>j scaled. scaled[j := jadd (rd scaled j) (Num ((a - q) * strength * (1 / 8)))])
            (atkinson_targets sw sh y x c) s0) \<and>
        length (fold (\<lambda>j scaled. scaled[j := jadd (rd scaled j) (Num ((a - q) * strength * (1 / 8)))])
            (atkinson_targets sw sh y x c) s0) = sw * sh * 4"
  proof (rule fold_invariant [where P = "\<lambda>t. NaN \<notin> set t \<and> length t = sw * sh * 4"], rule s0)
    fix j t assume j: "j \<in> set (atkinson_targets sw sh y x c)" and t: "NaN \<notin> set t \<and> length t = sw * sh * 4"
    have "j < sw * sh * 4" using atkinson_targets_bound [OF assms(3,4,5) j] .
    then show "NaN \<notin> set (t[j := jadd (rd t j) (Num ((a - q) * strength * (1 / 8)))]) \<and>
        length (t[j := jadd (rd t j) (Num ((a - q) * strength * (1 / 8)))]) = sw * sh * 4"
      using add_number [of t "sw * sh * 4" j] t by simp
  qed
  then show ?thesis
    unfolding atkinson_channel_def Let_def a q s0_def by simp
qed

lemma rd_px_nat: "rd_px xs (real n) = rd_u8 xs n"
  by (simp add: rd_px_def)

lemma downsample_numbers:
  fixes k w h :: nat
  assumes "0 < k" and "length pixels = w * h * 4"
  shows "NaN \<notin> set (downsample pixels w (real k) (w div k) (h div k))"
  unfolding downsample_def
proof (rule fold_invariant [where P = "\<lambda>t. NaN \<notin> set t"])
  show "NaN \<notin> set (replicate (w div k * (h div k) * 4) (Num 0))" by simp
next
  fix y t assume y: "y \<in> set [0..<h div k]" and t: "NaN \<notin> set t"
  show "NaN \<notin> set (fold (\<lambda>x scaled.
          let srcIdx = src_idx w (real k) y x; dstIdx = px_idx (w div k) y x
          in scaled[dstIdx := rd_px pixels srcIdx, dstIdx + 1 := rd_px pixels (srcIdx + 1),
                    dstIdx + 2 := rd_px pixels (srcIdx + 2), dstIdx + 3 := Num 255])
        [0..<w div k] t)"
  proof (rule fold_invariant [where P = "\<lambda>t. NaN \<notin> set t"], rule t)
    fix x u assume x: "x \<in> set [0..<w div k]" and u: "NaN \<notin> set u"
    define n where "n = px_idx w (y * k) (x * k)"
    have n: "src_idx w (real k) y x = real n" "n + 3 < length pixels"
      using src_idx_nat [OF assms(1), of y h x w] x y by (simp_all add: n_def assms(2))
    have r: "rd_px pixels (real n) \<noteq> NaN" "rd_px pixels (real n + 1) \<noteq> NaN"
            "rd_px pixels (real n + 2) \<noteq> NaN"
      using n(2) rd_px_nat [of pixels n] rd_px_nat [of pixels "n + 1"] rd_px_nat [of pixels "n + 2"]
      by (simp_all add: rd_u8_def add.commute)
    show "NaN \<notin> set (let srcIdx = src_idx w (real k) y x; dstIdx = px_idx (w div k) y x
          in u[dstIdx := rd_px pixels srcIdx, dstIdx + 1 := rd_px pixels (srcIdx + 1),
               dstIdx + 2 := rd_px pixels (srcIdx + 2), dstIdx + 3 := Num 255])"
      unfolding Let_def n(1)
      by (intro numbers_update u r) simp
  qed
qed

text \<open>
  With an integer scale and a buffer of \<open>4 * width * height\<close> samples, the cells of the
  working buffer hold numbers after the downsampling and throughout either diffusion
  pass, as C4 supposes.
\<close>

lemma working_buffer_numbers:
  fixes k w h :: nat
  assumes "0 < k" and "length pixels = w * h * 4" and "colorLevels \<noteq> 1"
  defines "sw \<equiv> w div k" and "sh \<equiv> h div k"
  defines "scaled \<equiv> downsample pixels w (real k) sw sh"
  shows "NaN \<notin> set scaled"
    and "NaN \<notin> set (fold (\<lambda>y. fold (\<lambda>x. fold (\<lambda>c.
            fs_channel strength colorLevels sw sh y x c) [0..<3]) [0..<sw]) [0..<sh] scaled)"
    and "NaN \<notin> set (fold (\<lambda>y. fold (\<lambda>x. fold (\<lambda>c.
            atkinson_channel strength colorLevels sw sh y x c) [0..<3]) [0..<sw]) [0..<sh] scaled)"
proof -
  show n: "NaN \<notin> set scaled"
    unfolding scaled_def sw_def sh_def using assms(1,2) by (rule downsample_numbers)
  have l: "length scaled = sw * sh * 4" unfolding scaled_def by (rule downsample_length)
  have "NaN \<notin> set (fold (\<lambda>y. fold (\<lambda>x. fold (\<lambda>c.
            fs_channel strength colorLevels sw sh y x c) [0..<3]) [0..<sw]) [0..<sh] scaled) \<and>
        length (fold (\<lambda>y. fold (\<lambda>x. fold (\<lambda>c.
            fs_channel strength colorLevels sw sh y x c) [0..<3]) [0..<sw]) [0..<sh] scaled) = sw * sh * 4"
    apply (rule fold_invariant [where P = "\<lambda>t. NaN \<notin> set t \<and> length t = sw * sh * 4"])
     apply (simp add: n l)
    apply (rule fold_invariant [where P = "\<lambda>t. NaN \<notin> set t \<and> length t = sw * sh * 4"])
     apply assumption
    apply (rule fold_invariant [where P = "\<lambda>t. NaN \<notin> set t \<and> length t = sw * sh * 4"])
     apply assumption
    apply (rule fs_channel_numbers)
    using assms(3) apply simp_all
    done
  then show "NaN \<notin> set (fold (\<lambda>y. fold (\<lambda>x. fold (\<lambda>c.
            fs_channel strength colorLevels sw sh y x c) [0..<3]) [0..<sw]) [0..<sh] scaled)" ..
  have "NaN \<notin> set (fold (\<lambda>y. fold (\<lambda>x. fold (\<lambda>c.
            atkinson_channel strength colorLevels sw sh y x c) [0..<3]) [0..<sw]) [0..<sh] scaled) \<and>
        length (fold (\<lambda>y. fold (\<lambda>x. fold (\<lambda>c.
            atkinson_channel strength colorLevels sw sh y x c) [0..<3]) [0..<sw]) [0..<sh] scaled) = sw * sh * 4"
    apply (rule fold_invariant [where P = "\<lambda>t. NaN \<notin> set t \<and> length t = sw * sh * 4"])
     apply (simp add: n l)
    apply (rule fold_invariant [where P = "\<lambda>t. NaN \<notin> set t \<and> length t = sw * sh * 4"])
     apply assumption
    apply (rule fold_invariant [where P = "\<lambda>t. NaN \<notin> set t \<and> length t = sw * sh * 4"])
     apply assumption
    apply (rule atkinson_channel_numbers)
    using assms(3) apply simp_all
    done
  then show "NaN \<notin> set (fold (\<lambda>y. fold (\<lambda>x. fold (\<lambda>c.
            atkinson_channel strength colorLevels sw sh y x c) [0..<3]) [0..<sw]) [0..<sh] scaled)" ..
qed

end
